theory Spec2Isabelle
  imports Main
begin

section \<open>Values shared by the components\<close>

text \<open>
  Numbers rendered inside template literals (\<^verbatim>\<open>`(${n} open)`\<close>, \<^verbatim>\<open>`Error ${statusCode}: ...`\<close>,
  \<^verbatim>\<open>`tasks_${limit}_...`\<close>) are non-negative integers in every use modelled here; they are
  rendered in decimal.
\<close>

definition digit :: "nat \<Rightarrow> char" where
  "digit d = ''0123456789'' ! d"

function show_nat :: "nat \<Rightarrow> string" where
  "show_nat n = (if n < 10 then [digit n] else show_nat (n div 10) @ [digit (n mod 10)])"
  by pat_completeness auto
termination
  by (relation "measure id") auto

declare show_nat.simps [simp del]

text \<open>
  \<^verbatim>\<open>class OpenMetadataAPIError extends Error { constructor(message, public statusCode?) }\<close>
\<close>

record api_error =
  message :: string
  statusCode :: "nat option"

text \<open>
  What a \<^verbatim>\<open>catch\<close> clause can receive: an axios error (its message, the response's status
  and status text when a response came back, and whether the request object is set), an
  \<^verbatim>\<open>OpenMetadataAPIError\<close>, any other \<^verbatim>\<open>Error\<close> (a \<^verbatim>\<open>TypeError\<close>, say) with its
  message, or a thrown value that is no \<^verbatim>\<open>Error\<close> at all.
\<close>

datatype thrown =
    AxiosError string "(nat \<times> string) option" bool
  | ApiError api_error
  | JsError string
  | NonError

text \<open>\<^verbatim>\<open>error instanceof Error ? error.message : 'Unknown error'\<close>\<close>

fun errorMessage :: "thrown \<Rightarrow> string" where
  "errorMessage (AxiosError m _ _) = m"
| "errorMessage (ApiError e) = message e"
| "errorMessage (JsError m) = m"
| "errorMessage NonError = ''Unknown error''"

section \<open>The task tree provider (taskTreeDataProvider.ts)\<close>

datatype task_status = Open | Closed

text \<open>
  The fields of a \<^verbatim>\<open>Task\<close> the provider reads. \<open>t_project\<close> is \<^verbatim>\<open>task.project?.name\<close>:
  \<open>None\<close> when the task has no project.
\<close>

record task =
  t_id :: string
  t_name :: string
  t_entityId :: string
  t_entityLink :: string
  t_status :: task_status
  t_project :: "string option"

record paging =
  total :: nat
  after :: "string option"
  before :: "string option"

text \<open>\<^verbatim>\<open>ApiResponse<Task[]>\<close>\<close>

record api_response =
  data :: "task list"
  paging :: "paging option"

datatype collapsible = CollapsibleNone | Collapsed | Expanded

text \<open>
  A \<^verbatim>\<open>TaskTreeItem\<close>. The constructor sets \<^verbatim>\<open>this.description = description || this.taskId\<close>;
  tooltip, icon, command and accessibility text are functions of these fields and are
  left to the presentation layer.
\<close>

record tree_item =
  label :: string
  taskId :: string
  entityId :: string
  entityLink :: string
  collapsibleState :: collapsible
  contextValue :: string
  description :: string

definition TaskTreeItem ::
  "string \<Rightarrow> string \<Rightarrow> string \<Rightarrow> string \<Rightarrow> collapsible \<Rightarrow> string \<Rightarrow> string option \<Rightarrow> tree_item" where
  "TaskTreeItem l tid eid elink cs cv d =
     \<lparr> label = l, taskId = tid, entityId = eid, entityLink = elink, collapsibleState = cs,
       contextValue = cv,
       description = (case d of None \<Rightarrow> tid | Some x \<Rightarrow> if x = [] then tid else x) \<rparr>"

text \<open>
  The provider's state: the two maps of the class, the messages \<^verbatim>\<open>ErrorHandler.handle\<close>
  has logged and shown, and the state \<open>world\<close> of the API client behind \<^verbatim>\<open>this.api\<close>.
  The provider is written against \<^verbatim>\<open>api.getTasks(limit, after)\<close> at its declared type
  \<^verbatim>\<open>Promise<ApiResponse<Task[]>>\<close>; the client is a parameter \<open>api\<close> of every operation
  that calls it, a rejected promise being \<open>Inl\<close>.
\<close>

record 'w provider =
  taskCache :: "string \<rightharpoonup> task list"
  nextPageTokens :: "string \<rightharpoonup> string"
  handled :: "string list"
  world :: 'w

type_synonym 'w tasks_api = "nat \<Rightarrow> string option \<Rightarrow> 'w \<Rightarrow> (thrown + api_response) \<times> 'w"

definition new_provider :: "'w \<Rightarrow> 'w provider" where
  "new_provider w = \<lparr> taskCache = Map.empty, nextPageTokens = Map.empty, handled = [], world = w \<rparr>"

definition ErrorHandler_handle :: "thrown \<Rightarrow> string \<Rightarrow> 'w provider \<Rightarrow> 'w provider" where
  "ErrorHandler_handle err msg st = st\<lparr> handled := handled st @ [msg @ '': '' @ errorMessage err] \<rparr>"

definition refresh :: "'w provider \<Rightarrow> 'w provider" where
  "refresh st = st\<lparr> taskCache := Map.empty, nextPageTokens := Map.empty \<rparr>"

text \<open>\<^verbatim>\<open>task.project?.name || 'Ungrouped'\<close>\<close>

definition projectName :: "task \<Rightarrow> string" where
  "projectName t = (case t_project t of None \<Rightarrow> ''Ungrouped'' | Some n \<Rightarrow> if n = [] then ''Ungrouped'' else n)"

text \<open>
  \<^verbatim>\<open>groupTasksByProject\<close> builds a \<^verbatim>\<open>Map\<close>, which iterates in insertion order: an
  association list with one entry per key.
\<close>

definition add_to_group :: "(string \<times> task list) list \<Rightarrow> task \<Rightarrow> (string \<times> task list) list" where
  "add_to_group g t =
     (let p = projectName t;
          g' = (if p \<in> fst ` set g then g else g @ [(p, [])])
      in map (\<lambda>(k, ts). if k = p then (k, ts @ [t]) else (k, ts)) g')"

definition groupTasksByProject :: "task list \<Rightarrow> (string \<times> task list) list" where
  "groupTasksByProject tasks = foldl add_to_group [] tasks"

definition bucket :: "'w provider \<Rightarrow> string \<Rightarrow> task list" where
  "bucket st key = (case taskCache st key of None \<Rightarrow> [] | Some ts \<Rightarrow> ts)"

definition cacheTasksAndUpdateNextPageToken :: "string \<Rightarrow> api_response \<Rightarrow> 'w provider \<Rightarrow> 'w provider" where
  "cacheTasksAndUpdateNextPageToken key response st =
     (let st1 = st\<lparr> taskCache := (taskCache st)(key \<mapsto> bucket st key @ data response) \<rparr>
      in case paging response of
           None \<Rightarrow> st1\<lparr> nextPageTokens := (nextPageTokens st1)(key := None) \<rparr>
         | Some pg \<Rightarrow>
             (case after pg of
                None \<Rightarrow> st1\<lparr> nextPageTokens := (nextPageTokens st1)(key := None) \<rparr>
              | Some c \<Rightarrow>
                  if c = [] then st1\<lparr> nextPageTokens := (nextPageTokens st1)(key := None) \<rparr>
                  else st1\<lparr> nextPageTokens := (nextPageTokens st1)(key \<mapsto> c) \<rparr>))"

definition projectItems :: "task_status \<Rightarrow> string \<Rightarrow> (string \<times> task list) list \<Rightarrow> tree_item list" where
  "projectItems s word grouped =
     concat (map (\<lambda>(projName, projectTasks).
        (let matching = filter (\<lambda>t. t_status t = s) projectTasks
         in if length matching > 0
            then [TaskTreeItem projName projName [] [] Collapsed ''project''
                    (Some (''('' @ show_nat (length matching) @ '' '' @ word @ '')''))]
            else [])) grouped)"

definition createTreeItems :: "string \<Rightarrow> 'w provider \<Rightarrow> tree_item list" where
  "createTreeItems key st =
     (let grouped = groupTasksByProject (bucket st key)
      in [TaskTreeItem ''Open Tasks'' ''open-tasks'' [] [] Expanded ''category'' None]
         @ projectItems Open ''open'' grouped
         @ [TaskTreeItem ''Completed Tasks'' ''completed-tasks'' [] [] Collapsed ''category'' None]
         @ projectItems Closed ''completed'' grouped
         @ (if nextPageTokens st key \<noteq> None
            then [TaskTreeItem ''Load More...'' key [] [] CollapsibleNone ''loadMore'' None]
            else []))"

definition taskLeaf :: "task \<Rightarrow> tree_item" where
  "taskLeaf t = TaskTreeItem (t_name t) (t_id t) (t_entityId t) (t_entityLink t) CollapsibleNone
     (if t_status t = Closed then ''completedTask'' else ''openTask'') None"

definition getTasksForProject :: "string \<Rightarrow> 'w provider \<Rightarrow> tree_item list" where
  "getTasksForProject projName st =
     map taskLeaf (filter (\<lambda>t. projectName t = projName) (bucket st ''root''))"

definition loadMoreTasks :: "'w tasks_api \<Rightarrow> string \<Rightarrow> 'w provider \<Rightarrow> tree_item list \<times> 'w provider" where
  "loadMoreTasks api key st =
     (case nextPageTokens st key of
        None \<Rightarrow> ([], st)
      | Some nextPageToken \<Rightarrow>
          if nextPageToken = [] then ([], st)
          else (case api 20 (Some nextPageToken) (world st) of
                  (Inr response, w) \<Rightarrow>
                    (let st1 = cacheTasksAndUpdateNextPageToken key response (st\<lparr> world := w \<rparr>)
                     in (createTreeItems key st1, st1))
                | (Inl err, w) \<Rightarrow>
                    ([], ErrorHandler_handle err ''Failed to load more tasks'' (st\<lparr> world := w \<rparr>))))"

definition getRootItems :: "'w tasks_api \<Rightarrow> 'w provider \<Rightarrow> tree_item list \<times> 'w provider" where
  "getRootItems api st =
     (case api 1 None (world st) of
        (Inr response, w) \<Rightarrow>
          (let totalTasks = (case paging response of None \<Rightarrow> 0 | Some pg \<Rightarrow> total pg)
           in ([TaskTreeItem ''All Tasks'' ''all-tasks'' [] [] Collapsed ''category''
                  (Some (''('' @ show_nat totalTasks @ '' tasks)'')),
                TaskTreeItem ''Open Tasks'' ''open-tasks'' [] [] Collapsed ''category'' None,
                TaskTreeItem ''Completed Tasks'' ''completed-tasks'' [] [] Collapsed ''category'' None],
               st\<lparr> world := w \<rparr>))
      | (Inl err, w) \<Rightarrow> ([], ErrorHandler_handle err ''Failed to fetch tasks'' (st\<lparr> world := w \<rparr>)))"

definition getChildren :: "'w tasks_api \<Rightarrow> tree_item option \<Rightarrow> 'w provider \<Rightarrow> tree_item list \<times> 'w provider" where
  "getChildren api element st =
     (case element of
        None \<Rightarrow> getRootItems api st
      | Some e \<Rightarrow>
          if contextValue e = ''project'' then (getTasksForProject (taskId e) st, st)
          else if contextValue e = ''loadMore'' then loadMoreTasks api (taskId e) st
          else ([], st))"

section \<open>The rate limiter (class RateLimiter)\<close>

text \<open>
  A \<^verbatim>\<open>RateLimiter\<close> in its event loop: the fields of the instance (\<open>maxConcurrent\<close>,
  \<open>interval\<close>, \<open>running\<close>, \<open>queue\<close>), the clock (\<^verbatim>\<open>Date.now()\<close>, in milliseconds), the due
  times of the release timers \<^verbatim>\<open>setTimeout(() => this.release(), this.interval)\<close> has
  scheduled and that have not fired yet, in the order they were scheduled, and the callers
  whose \<^verbatim>\<open>wait()\<close> has returned, in the order it returned. The queue holds the
  \<^verbatim>\<open>resolve\<close> callbacks of the parked callers; a caller is named by a number.
\<close>

record runtime =
  maxConcurrent :: int
  interval :: int
  running :: int
  queue :: "nat list"
  timers :: "int list"
  now :: int
  entered :: "nat list"

definition new_RateLimiter :: "int \<Rightarrow> int \<Rightarrow> runtime" where
  "new_RateLimiter mc iv =
     \<lparr> maxConcurrent = mc, interval = iv, running = 0, queue = [], timers = [], now = 0, entered = [] \<rparr>"

text \<open>The tail of \<^verbatim>\<open>wait()\<close>: \<^verbatim>\<open>this.running++; setTimeout(...)\<close>, after which the caller has its permit.\<close>

definition proceed :: "nat \<Rightarrow> runtime \<Rightarrow> runtime" where
  "proceed caller s =
     s\<lparr> running := running s + 1, timers := timers s @ [now s + interval s],
        entered := entered s @ [caller] \<rparr>"

text \<open>
  A call of \<^verbatim>\<open>wait()\<close>: at the limit the caller parks its \<^verbatim>\<open>resolve\<close> in the queue and
  the call is suspended; otherwise it proceeds at once.
\<close>

definition wait :: "nat \<Rightarrow> runtime \<Rightarrow> runtime" where
  "wait caller s =
     (if running s \<ge> maxConcurrent s then s\<lparr> queue := queue s @ [caller] \<rparr>
      else proceed caller s)"

text \<open>
  \<^verbatim>\<open>release()\<close>: \<^verbatim>\<open>this.running--\<close>, then the head of the queue is shifted out and resolved;
  the resumed caller runs the tail of its \<^verbatim>\<open>wait()\<close> in the microtask that follows, before
  any other timer or caller runs.
\<close>

definition release :: "runtime \<Rightarrow> runtime" where
  "release s =
     (let s1 = s\<lparr> running := running s - 1 \<rparr>
      in case queue s1 of
           [] \<Rightarrow> s1
         | next # rest \<Rightarrow> proceed next (s1\<lparr> queue := rest \<rparr>))"

text \<open>
  The event loop fires the oldest pending timer (all timers of one limiter have the same
  delay, so the oldest is the first that is due; \<open>history_timers_sorted\<close> below): the clock
  moves to its due time if it is not there yet, and the callback runs \<open>release\<close>.
\<close>

definition fire :: "runtime \<Rightarrow> runtime" where
  "fire s =
     (case timers s of
        [] \<Rightarrow> s
      | t # ts \<Rightarrow> release (s\<lparr> timers := ts, now := max (now s) t \<rparr>))"

text \<open>\<open>n\<close> callers, numbered in call order, call \<^verbatim>\<open>wait()\<close> one after the other in the same instant.\<close>

definition issue :: "nat \<Rightarrow> runtime \<Rightarrow> runtime" where
  "issue n s = foldl (\<lambda>s caller. wait caller s) s [0..<n]"

lemma fire_measure:
  "timers s \<noteq> [] \<Longrightarrow>
   2 * length (queue (fire s)) + length (timers (fire s)) < 2 * length (queue s) + length (timers s)"
  by (cases "timers s"; cases "queue s") (simp_all add: fire_def release_def proceed_def)

text \<open>The states the event loop goes through while timers are pending, the last one being idle.\<close>

function draining :: "runtime \<Rightarrow> runtime list" where
  "draining s = (if timers s = [] then [s] else s # draining (fire s))"
  by pat_completeness auto
termination
  by (relation "measure (\<lambda>s. 2 * length (queue s) + length (timers s))") (auto simp: fire_measure)

declare draining.simps [simp del]

text \<open>
  Every state of the scenario ``\<open>n\<close> acquisitions issued at once, nothing else happens'':
  the states before each call, then the states between timer firings; and its last state.
\<close>

definition history :: "nat \<Rightarrow> runtime \<Rightarrow> runtime list" where
  "history n s = map (\<lambda>j. issue j s) [0..<n] @ draining (issue n s)"

definition settled :: "nat \<Rightarrow> runtime \<Rightarrow> runtime" where
  "settled n s = last (draining (issue n s))"

section \<open>The API client (class OpenMetadataAPI)\<close>

text \<open>
  The class declares \<^verbatim>\<open>getTasks\<close>, \<^verbatim>\<open>getAsset\<close> and five more methods twice; in a class body
  the later declaration of a name replaces the earlier one, so the methods in force are
  the later ones, which go through \<^verbatim>\<open>cachedRequest\<close>.

  Values of type \<^verbatim>\<open>any\<close>: JSON values and promises. A promise is modelled by the outcome
  it settles to.
\<close>

datatype jsval =
    JUndefined
  | JNull
  | JBool bool
  | JNum int
  | JStr string
  | JArr "jsval list"
  | JObj "(string \<times> jsval) list"
  | JPromise "api_error + jsval"

fun truthy :: "jsval \<Rightarrow> bool" where
  "truthy JUndefined = False"
| "truthy JNull = False"
| "truthy (JBool b) = b"
| "truthy (JNum n) = (n \<noteq> 0)"
| "truthy (JStr s) = (s \<noteq> [])"
| "truthy _ = True"

text \<open>\<^verbatim>\<open>typeof v === 'object'\<close>\<close>

fun is_object :: "jsval \<Rightarrow> bool" where
  "is_object JNull = True"
| "is_object (JArr _) = True"
| "is_object (JObj _) = True"
| "is_object (JPromise _) = True"
| "is_object _ = False"

text \<open>
  \<^verbatim>\<open>v.name\<close> for a value that is neither \<^verbatim>\<open>null\<close> nor \<^verbatim>\<open>undefined\<close>: the member of an
  object literal, \<^verbatim>\<open>undefined\<close> for a missing member and for the other kinds of value
  (none of the names read here is a member of an array, a promise or a primitive).
\<close>

fun js_prop :: "jsval \<Rightarrow> string \<Rightarrow> jsval" where
  "js_prop (JObj members) name = (case map_of members name of None \<Rightarrow> JUndefined | Some v \<Rightarrow> v)"
| "js_prop _ name = JUndefined"

record http_request =
  rq_method :: string
  rq_url :: string
  rq_authorization :: string
  rq_body :: "jsval option"

text \<open>
  The network, as axios shows it: a request resolves with a status and the response's
  data, or rejects with what the \<^verbatim>\<open>catch\<close> clause receives.
\<close>

type_synonym network = "http_request \<Rightarrow> thrown + (nat \<times> jsval)"

text \<open>
  The client's fields. \<open>rateLimiter\<close> is the limiter with the event loop's clock; \<open>sent\<close>
  lists the requests handed to axios, oldest first.
\<close>

record api_state =
  baseUrl :: string
  webAppUrl :: string
  token :: string
  rateLimiter :: runtime
  cache :: "string \<rightharpoonup> (jsval \<times> int)"
  sent :: "http_request list"

definition CACHE_TTL :: int where
  "CACHE_TTL = 5 * 60 * 1000"

definition new_OpenMetadataAPI :: "string \<Rightarrow> string \<Rightarrow> api_state" where
  "new_OpenMetadataAPI base web =
     \<lparr> baseUrl = base, webAppUrl = web, token = [], rateLimiter = new_RateLimiter 5 1000,
       cache = Map.empty, sent = [] \<rparr>"

definition Date_now :: "'z api_state_scheme \<Rightarrow> int" where
  "Date_now st = now (rateLimiter st)"

fun handleError :: "thrown \<Rightarrow> api_error" where
  "handleError (AxiosError m (Some (status, statusText)) rq) =
     \<lparr> message = ''Error '' @ show_nat status @ '': '' @ statusText
         @ (if status = 401 then ''. Please check your authentication token.''
            else if status = 404 then ''. The requested resource was not found.''
            else []),
       statusCode = Some status \<rparr>"
| "handleError (AxiosError m None True) =
     \<lparr> message = ''OpenMetadata API Error: No response received'', statusCode = None \<rparr>"
| "handleError _ =
     \<lparr> message = ''OpenMetadata API Error: Unknown error occurred'', statusCode = None \<rparr>"

text \<open>
  \<^verbatim>\<open>request\<close>: the call of \<^verbatim>\<open>rateLimiter.wait()\<close> (the caller is numbered by the calls made
  before it), then the axios call with the bearer token; a rejection goes through
  \<open>handleError\<close>. The outcome is what the returned promise settles to once \<^verbatim>\<open>wait()\<close> has
  returned.
\<close>

definition request ::
  "network \<Rightarrow> string \<Rightarrow> string \<Rightarrow> jsval option \<Rightarrow> 'z api_state_scheme
     \<Rightarrow> (api_error + jsval) \<times> 'z api_state_scheme" where
  "request net method endpoint body st =
     (let rl = rateLimiter st;
          st1 = st\<lparr> rateLimiter := wait (length (entered rl) + length (queue rl)) rl \<rparr>;
          rq = \<lparr> rq_method = method, rq_url = baseUrl st @ ''/api/v1'' @ endpoint,
                 rq_authorization = ''Bearer '' @ token st, rq_body = body \<rparr>;
          st2 = st1\<lparr> sent := sent st1 @ [rq] \<rparr>
      in case net rq of
           Inr (status, d) \<Rightarrow> (Inr d, st2)
         | Inl err \<Rightarrow> (Inl (handleError err), st2))"

definition parseResponse :: "jsval \<Rightarrow> api_error + jsval" where
  "parseResponse response =
     (if \<not> truthy response \<or> \<not> is_object response
      then Inl \<lparr> message = ''Invalid API response'', statusCode = None \<rparr>
      else Inr (JObj
        ([(''data'', if truthy (js_prop response ''data'') then js_prop response ''data'' else response)]
         @ (if truthy (js_prop response ''paging'')
            then [(''paging'', JObj [(''total'', js_prop (js_prop response ''paging'') ''total''),
                                     (''after'', js_prop (js_prop response ''paging'') ''after''),
                                     (''before'', js_prop (js_prop response ''paging'') ''before'')])]
            else []))))"

definition authenticate ::
  "network \<Rightarrow> string \<Rightarrow> 'z api_state_scheme \<Rightarrow> (api_error + bool) \<times> 'z api_state_scheme" where
  "authenticate net jwtToken st =
     (let rq = \<lparr> rq_method = ''GET'', rq_url = baseUrl st @ ''/api/v1/system/config/jwks'',
                 rq_authorization = ''Bearer '' @ jwtToken, rq_body = None \<rparr>;
          st1 = st\<lparr> sent := sent st @ [rq] \<rparr>
      in case net rq of
           Inr (status, d) \<Rightarrow>
             if 200 \<le> status \<and> status < 300 then (Inr True, st1\<lparr> token := jwtToken \<rparr>)
             else (Inr False, st1)
         | Inl err \<Rightarrow> (Inl (handleError err), st1))"

definition isAuthenticated :: "'z api_state_scheme \<Rightarrow> bool" where
  "isAuthenticated st \<longleftrightarrow> token st \<noteq> []"

text \<open>The payload \<^verbatim>\<open>cachedRequest\<close> would return without calling the producer, if any.\<close>

definition cached :: "'z api_state_scheme \<Rightarrow> string \<Rightarrow> jsval option" where
  "cached st key =
     (case cache st key of
        None \<Rightarrow> None
      | Some (d, timestamp) \<Rightarrow> if Date_now st - timestamp < CACHE_TTL then Some d else None)"

text \<open>
  \<^verbatim>\<open>cachedRequest\<close>. The producer \<^verbatim>\<open>requestFn\<close> is awaited: \<open>Inl\<close> is a producer that throws or
  whose promise rejects, and then nothing is stored. \<^verbatim>\<open>Date.now()\<close> is read again after the
  producer has returned.
\<close>

definition cachedRequest ::
  "string \<Rightarrow> ('z api_state_scheme \<Rightarrow> ('e + jsval) \<times> 'z api_state_scheme) \<Rightarrow> 'z api_state_scheme
     \<Rightarrow> ('e + jsval) \<times> 'z api_state_scheme" where
  "cachedRequest key requestFn st =
     (case cached st key of
        Some d \<Rightarrow> (Inr d, st)
      | None \<Rightarrow>
          (case requestFn st of
             (Inl err, st1) \<Rightarrow> (Inl err, st1)
           | (Inr d, st1) \<Rightarrow> (Inr d, st1\<lparr> cache := (cache st1)(key \<mapsto> (d, Date_now st1)) \<rparr>)))"

definition notAuthenticated :: api_error where
  "notAuthenticated = \<lparr> message = ''Not authenticated. Please authenticate first.'', statusCode = None \<rparr>"

text \<open>\<^verbatim>\<open>`tasks_${limit}_${after || ''}`\<close>, with the default \<^verbatim>\<open>limit = 20\<close>.\<close>

definition tasksCacheKey :: "nat option \<Rightarrow> string option \<Rightarrow> string" where
  "tasksCacheKey limit aft =
     ''tasks_'' @ show_nat (case limit of None \<Rightarrow> 20 | Some l \<Rightarrow> l) @ ''_''
     @ (case aft of None \<Rightarrow> [] | Some a \<Rightarrow> a)"

text \<open>
  \<^verbatim>\<open>getTasks\<close> (the declaration in force). Its producer checks the token, then calls
  \<^verbatim>\<open>this.request\<close> without awaiting it and hands the promise to \<^verbatim>\<open>parseResponse\<close>.
\<close>

definition getTasks ::
  "network \<Rightarrow> nat option \<Rightarrow> string option \<Rightarrow> 'z api_state_scheme
     \<Rightarrow> (api_error + jsval) \<times> 'z api_state_scheme" where
  "getTasks net limit aft st =
     cachedRequest (tasksCacheKey limit aft)
       (\<lambda>s. if \<not> isAuthenticated s then (Inl notAuthenticated, s)
            else (let endpoint = ''/tasks?limit='' @ show_nat (case limit of None \<Rightarrow> 20 | Some l \<Rightarrow> l)
                        @ (case aft of None \<Rightarrow> [] | Some a \<Rightarrow> if a = [] then [] else ''&after='' @ a)
                  in case request net ''GET'' endpoint None s of
                       (response, s1) \<Rightarrow> (parseResponse (JPromise response), s1)))
       st"

definition updateTask ::
  "network \<Rightarrow> string \<Rightarrow> jsval \<Rightarrow> 'z api_state_scheme \<Rightarrow> (api_error + jsval) \<times> 'z api_state_scheme" where
  "updateTask net tid updateData st = request net ''PATCH'' (''/tasks/'' @ tid) (Some updateData) st"

definition getTaskDetails ::
  "network \<Rightarrow> string \<Rightarrow> 'z api_state_scheme \<Rightarrow> (api_error + jsval) \<times> 'z api_state_scheme" where
  "getTaskDetails net tid st =
     cachedRequest (''task_'' @ tid) (request net ''GET'' (''/tasks/'' @ tid) None) st"

text \<open>
  \<^verbatim>\<open>getTaskParentAsset\<close> awaits \<^verbatim>\<open>request\<close> inside its own \<^verbatim>\<open>try\<close> and passes whatever it
  catches to \<open>handleError\<close> again; reading \<^verbatim>\<open>task.entityLink\<close> of \<^verbatim>\<open>null\<close> or \<^verbatim>\<open>undefined\<close>
  throws a \<^verbatim>\<open>TypeError\<close> into the same \<^verbatim>\<open>catch\<close>.
\<close>

definition getTaskParentAsset ::
  "network \<Rightarrow> string \<Rightarrow> 'z api_state_scheme \<Rightarrow> (api_error + jsval) \<times> 'z api_state_scheme" where
  "getTaskParentAsset net tid st =
     (case request net ''GET'' (''/tasks/'' @ tid) None st of
        (Inr task, st1) \<Rightarrow>
          if task = JUndefined \<or> task = JNull
          then (Inl (handleError (JsError ''Cannot read properties'')), st1)
          else (Inr (if truthy (js_prop task ''entityLink'') then js_prop task ''entityLink'' else JNull), st1)
      | (Inl err, st1) \<Rightarrow> (Inl (handleError (ApiError err)), st1))"

text \<open>
  The remaining public operations of the class, each in its declaration in force. An
  optional number is rendered by a template literal as \<^verbatim>\<open>undefined\<close> when it is absent.
\<close>

definition show_opt :: "nat option \<Rightarrow> string" where
  "show_opt n = (case n of None \<Rightarrow> ''undefined'' | Some k \<Rightarrow> show_nat k)"

definition getAsset ::
  "network \<Rightarrow> string \<Rightarrow> 'z api_state_scheme \<Rightarrow> (api_error + jsval) \<times> 'z api_state_scheme" where
  "getAsset net assetId st =
     cachedRequest (''asset_'' @ assetId) (request net ''GET'' (''/entities/'' @ assetId) None) st"

definition getAssetLineage ::
  "network \<Rightarrow> string \<Rightarrow> nat option \<Rightarrow> nat option \<Rightarrow> 'z api_state_scheme
     \<Rightarrow> (api_error + jsval) \<times> 'z api_state_scheme" where
  "getAssetLineage net assetId upstreamDepth downstreamDepth st =
     (let up = (case upstreamDepth of None \<Rightarrow> 1 | Some n \<Rightarrow> n);
          down = (case downstreamDepth of None \<Rightarrow> 1 | Some n \<Rightarrow> n)
      in cachedRequest (''asset_lineage_'' @ assetId @ ''_'' @ show_nat up @ ''_'' @ show_nat down)
           (request net ''GET''
              (''/lineage/entities/'' @ assetId @ ''?upstreamDepth='' @ show_nat up
               @ ''&downstreamDepth='' @ show_nat down) None)
           st)"

text \<open>\<^verbatim>\<open>encodeURIComponent\<close> is the parameter of that name.\<close>

definition searchAssets ::
  "network \<Rightarrow> (string \<Rightarrow> string) \<Rightarrow> string \<Rightarrow> string option \<Rightarrow> nat option \<Rightarrow> nat option
     \<Rightarrow> 'z api_state_scheme \<Rightarrow> (api_error + jsval) \<times> 'z api_state_scheme" where
  "searchAssets net encodeURIComponent query index frm sz st =
     (let idx = (case index of None \<Rightarrow> ''all_entity_search_index'' | Some i \<Rightarrow> i);
          start = (case frm of None \<Rightarrow> 0 | Some n \<Rightarrow> n);
          count = (case sz of None \<Rightarrow> 10 | Some n \<Rightarrow> n)
      in cachedRequest (''search_'' @ query @ ''_'' @ idx @ ''_'' @ show_nat start @ ''_'' @ show_nat count)
           (request net ''GET''
              (''/search/query?q='' @ encodeURIComponent query @ ''&index='' @ idx
               @ ''&from='' @ show_nat start @ ''&size='' @ show_nat count) None)
           st)"

definition getDataQualityTestResults ::
  "network \<Rightarrow> string \<Rightarrow> nat option \<Rightarrow> nat option \<Rightarrow> 'z api_state_scheme
     \<Rightarrow> (api_error + jsval) \<times> 'z api_state_scheme" where
  "getDataQualityTestResults net testCaseId startTs endTs st =
     (let endpoint = ''/dataQuality/testCases/'' @ testCaseId @ ''/testCaseResults''
            @ (case (startTs, endTs) of
                 (Some a, Some b) \<Rightarrow>
                   if a \<noteq> 0 \<and> b \<noteq> 0 then ''?startTs='' @ show_nat a @ ''&endTs='' @ show_nat b else []
               | _ \<Rightarrow> [])
      in cachedRequest (''data_quality_'' @ testCaseId @ ''_'' @ show_opt startTs @ ''_'' @ show_opt endTs)
           (request net ''GET'' endpoint None) st)"

definition getTaskUrl :: "string \<Rightarrow> 'z api_state_scheme \<Rightarrow> string" where
  "getTaskUrl tid st = webAppUrl st @ ''/tasks/'' @ tid"

definition getAssetUrl :: "string \<Rightarrow> 'z api_state_scheme \<Rightarrow> string" where
  "getAssetUrl assetId st = webAppUrl st @ ''/entity/'' @ assetId"

text \<open>
  The producer of \<^verbatim>\<open>getIngestionBotToken\<close> throws the not-authenticated error outside its
  \<^verbatim>\<open>try\<close>. Inside, \<^verbatim>\<open>this.request\<close> is called and not awaited: \<^verbatim>\<open>response\<close> is a promise,
  \<^verbatim>\<open>response.botToken\<close> is \<^verbatim>\<open>undefined\<close>, the invalid-format error is thrown and caught, and
  \<open>handleError\<close> rethrows it.
\<close>

definition getIngestionBotToken ::
  "network \<Rightarrow> 'z api_state_scheme \<Rightarrow> (api_error + jsval) \<times> 'z api_state_scheme" where
  "getIngestionBotToken net st =
     cachedRequest ''ingestion_bot_token''
       (\<lambda>s. if \<not> isAuthenticated s then (Inl notAuthenticated, s)
            else (case request net ''GET'' ''/bots/name/ingestion-bot'' None s of
                    (response, s1) \<Rightarrow>
                      (Inl (handleError (ApiError
                         \<lparr> message = ''Invalid response format for ingestion bot token'',
                           statusCode = None \<rparr>)), s1)))
       st"

text \<open>
  The producer of \<^verbatim>\<open>getAssetDetails\<close> calls \<^verbatim>\<open>this.getAsset\<close> and does not await it:
  \<^verbatim>\<open>asset\<close> is a promise, \<^verbatim>\<open>asset.entityType\<close> is \<^verbatim>\<open>undefined\<close>, the \<^verbatim>\<open>default\<close> branch
  serialises the promise (to \<^verbatim>\<open>"{}"\<close>) and the spread of the promise contributes no member.
  What the pending \<^verbatim>\<open>getAsset\<close> does to the client is applied in place.
\<close>

definition getAssetDetails ::
  "network \<Rightarrow> string \<Rightarrow> 'z api_state_scheme \<Rightarrow> (api_error + jsval) \<times> 'z api_state_scheme" where
  "getAssetDetails net assetId st =
     cachedRequest (''asset_details_'' @ assetId)
       (\<lambda>s. case getAsset net assetId s of
               (asset, s1) \<Rightarrow> (Inr (JObj [(''content'', JStr ''{}''), (''type'', JStr ''other'')]), s1))
       st"

text \<open>A call of one of the public operations of the client, and what it does.\<close>

datatype api_call =
    Authenticate string
  | IsAuthenticated
  | GetTasks "nat option" "string option"
  | UpdateTask string jsval
  | GetTaskDetails string
  | GetAsset string
  | GetAssetLineage string "nat option" "nat option"
  | SearchAssets string "string option" "nat option" "nat option"
  | GetDataQualityTestResults string "nat option" "nat option"
  | GetTaskUrl string
  | GetAssetUrl string
  | GetTaskParentAsset string
  | GetIngestionBotToken
  | GetAssetDetails string

fun run ::
  "network \<Rightarrow> (string \<Rightarrow> string) \<Rightarrow> api_call \<Rightarrow> 'z api_state_scheme
     \<Rightarrow> (api_error + jsval) \<times> 'z api_state_scheme" where
  "run net enc (Authenticate jwt) st =
     (case authenticate net jwt st of (Inl err, st1) \<Rightarrow> (Inl err, st1) | (Inr b, st1) \<Rightarrow> (Inr (JBool b), st1))"
| "run net enc IsAuthenticated st = (Inr (JBool (isAuthenticated st)), st)"
| "run net enc (GetTasks limit aft) st = getTasks net limit aft st"
| "run net enc (UpdateTask tid upd) st = updateTask net tid upd st"
| "run net enc (GetTaskDetails tid) st = getTaskDetails net tid st"
| "run net enc (GetAsset assetId) st = getAsset net assetId st"
| "run net enc (GetAssetLineage assetId up down) st = getAssetLineage net assetId up down st"
| "run net enc (SearchAssets query index frm sz) st = searchAssets net enc query index frm sz st"
| "run net enc (GetDataQualityTestResults testCaseId startTs endTs) st =
     getDataQualityTestResults net testCaseId startTs endTs st"
| "run net enc (GetTaskUrl tid) st = (Inr (JStr (getTaskUrl tid st)), st)"
| "run net enc (GetAssetUrl assetId) st = (Inr (JStr (getAssetUrl assetId st)), st)"
| "run net enc (GetTaskParentAsset tid) st = getTaskParentAsset net tid st"
| "run net enc GetIngestionBotToken st = getIngestionBotToken net st"
| "run net enc (GetAssetDetails assetId) st = getAssetDetails net assetId st"

section \<open>The token manager (tokenManager.ts)\<close>

datatype severity = InformationMessage | WarningMessage | ErrorMessage

text \<open>
  The secret storage of the extension context and the messages shown to the user.
  \<^verbatim>\<open>OpenMetadataAPI\<close> declares no \<^verbatim>\<open>refreshToken\<close>; the call \<^verbatim>\<open>this.api.refreshToken(token)\<close>
  is the parameter \<open>api_refreshToken\<close>: it throws (\<open>Inl\<close>) or returns a new token or none.
\<close>

record token_manager =
  secrets :: "string \<rightharpoonup> string"
  shown :: "(severity \<times> string) list"

definition TOKEN_KEY :: string where
  "TOKEN_KEY = ''openmetadata-jwt-token''"

definition encryptToken :: "string \<Rightarrow> string" where
  "encryptToken tok = tok"

definition decryptToken :: "string \<Rightarrow> string" where
  "decryptToken encryptedToken = encryptedToken"

definition getToken :: "token_manager \<Rightarrow> string option" where
  "getToken st =
     (case secrets st TOKEN_KEY of
        None \<Rightarrow> None
      | Some encryptedToken \<Rightarrow> if encryptedToken = [] then None else Some (decryptToken encryptedToken))"

definition setToken :: "string \<Rightarrow> token_manager \<Rightarrow> token_manager" where
  "setToken tok st = st\<lparr> secrets := (secrets st)(TOKEN_KEY \<mapsto> encryptToken tok) \<rparr>"

definition clearToken :: "token_manager \<Rightarrow> token_manager" where
  "clearToken st = st\<lparr> secrets := (secrets st)(TOKEN_KEY := None) \<rparr>"

definition showMessage :: "severity \<Rightarrow> string \<Rightarrow> token_manager \<Rightarrow> token_manager" where
  "showMessage sev msg st = st\<lparr> shown := shown st @ [(sev, msg)] \<rparr>"

definition refreshToken :: "(string \<Rightarrow> thrown + string option) \<Rightarrow> token_manager \<Rightarrow> token_manager" where
  "refreshToken api_refreshToken st =
     (case getToken st of
        None \<Rightarrow> st
      | Some tok \<Rightarrow>
          if tok = [] then st
          else (case api_refreshToken tok of
                  Inr newToken \<Rightarrow>
                    (case newToken of
                       None \<Rightarrow>
                         showMessage WarningMessage
                           ''OpenMetadata token has expired. Please authenticate again.'' (clearToken st)
                     | Some new \<Rightarrow>
                         if new = []
                         then showMessage WarningMessage
                                ''OpenMetadata token has expired. Please authenticate again.'' (clearToken st)
                         else showMessage InformationMessage
                                ''OpenMetadata token refreshed successfully.'' (setToken new st))
                | Inl err \<Rightarrow>
                    showMessage ErrorMessage
                      (''Failed to refresh OpenMetadata token: '' @ errorMessage err) st))"

section \<open>Test fixtures\<close>

text \<open>
  Concrete inputs: the three tasks of the specification's grouping example, held in the
  \<^verbatim>\<open>'root'\<close> bucket, and a two-page server (five tasks with cursor \<^verbatim>\<open>"c1"\<close>, then three
  tasks and no cursor) whose state counts the calls it has answered.
\<close>

definition mk_task :: "string \<Rightarrow> task_status \<Rightarrow> string option \<Rightarrow> task" where
  "mk_task i s p = \<lparr> t_id = i, t_name = ''Task '' @ i, t_entityId = [], t_entityLink = [],
     t_status = s, t_project = p \<rparr>"

definition holding :: "task list \<Rightarrow> nat provider" where
  "holding ts = (new_provider 0)\<lparr> taskCache := [''root'' \<mapsto> ts] \<rparr>"

definition spec_tasks :: "task list" where
  "spec_tasks = [mk_task ''1'' Open (Some ''A''), mk_task ''2'' Closed (Some ''A''), mk_task ''3'' Open None]"

definition page1 :: api_response where
  "page1 = \<lparr> data = map (\<lambda>i. mk_task (show_nat i) Open (Some ''A'')) [1..<6],
     paging = Some \<lparr> total = 8, after = Some ''c1'', before = None \<rparr> \<rparr>"

definition page2 :: api_response where
  "page2 = \<lparr> data = map (\<lambda>i. mk_task (show_nat i) Closed (Some ''B'')) [6..<9],
     paging = Some \<lparr> total = 8, after = None, before = None \<rparr> \<rparr>"

definition two_pages :: "nat tasks_api" where
  "two_pages limit aft calls =
     (if aft = None then Inr page1
      else if aft = Some ''c1'' then Inr page2
      else Inl (JsError ''unknown cursor''), Suc calls)"

definition loadMoreNode :: "string \<Rightarrow> tree_item" where
  "loadMoreNode key = TaskTreeItem ''Load More...'' key [] [] CollapsibleNone ''loadMore'' None"

definition projectNode :: "string \<Rightarrow> string \<Rightarrow> tree_item" where
  "projectNode projName counted = TaskTreeItem projName projName [] [] Collapsed ''project'' (Some counted)"

text \<open>A provider that has accumulated the first page of the two-page server and holds its cursor.\<close>

definition after_page1 :: "nat provider" where
  "after_page1 = (new_provider 1)\<lparr> taskCache := [''root'' \<mapsto> data page1], nextPageTokens := [''root'' \<mapsto> ''c1''] \<rparr>"


text \<open>
  For the API client: a client whose state carries the call count of a spy producer (the
  \<^verbatim>\<open>jest.fn()\<close> of a test), the clock set to a given reading, a server that answers every
  request with 200 and one task, a server that answers 401, a connection that drops, and
  a client that authenticated, listed the tasks and was then given the empty token.
\<close>

record spied = api_state +
  invocations :: nat

definition new_spied :: spied where
  "new_spied = api_state.extend (new_OpenMetadataAPI ''http://api.example.com'' ''http://webapp.example.com'')
                 (spied.fields 0)"

definition spy :: "(spied \<Rightarrow> ('e + jsval) \<times> spied) \<Rightarrow> spied \<Rightarrow> ('e + jsval) \<times> spied" where
  "spy g s = (case g s of (r, s1) \<Rightarrow> (r, s1\<lparr> invocations := invocations s + 1 \<rparr>))"

definition at :: "int \<Rightarrow> 'z api_state_scheme \<Rightarrow> 'z api_state_scheme" where
  "at t st = st\<lparr> rateLimiter := (rateLimiter st)\<lparr> now := t \<rparr> \<rparr>"

definition clock_reader :: "spied \<Rightarrow> (api_error + jsval) \<times> spied" where
  "clock_reader s = (Inr (JNum (Date_now s)), s)"

definition first_call :: spied where
  "first_call = snd (cachedRequest ''k'' (spy clock_reader) new_spied)"

definition ok_net :: network where
  "ok_net rq = Inr (200, JObj [(''data'', JArr [JObj [(''id'', JStr ''1''), (''name'', JStr ''Task 1'')]]),
                               (''paging'', JObj [(''total'', JNum 1)])])"

definition ok_tasks :: jsval where
  "ok_tasks = JObj [(''data'', JPromise (Inr (JObj [(''data'', JArr [JObj [(''id'', JStr ''1''), (''name'', JStr ''Task 1'')]]),
                               (''paging'', JObj [(''total'', JNum 1)])])))]"

definition signed_out_with_cache :: spied where
  "signed_out_with_cache =
     snd (authenticate ok_net []
       (snd (getTasks ok_net None None
         (snd (authenticate ok_net ''valid_token'' new_spied)))))"

definition unauthorized :: network where
  "unauthorized rq = Inl (AxiosError ''Request failed with status code 401'' (Some (401, ''Unauthorized'')) True)"

definition dropped :: network where
  "dropped rq = Inl (AxiosError ''Network Error'' None True)"

text \<open>
  A producer that throws (as the producer of \<open>getTasks\<close> does on a client without token)
  and a producer that returns two seconds after it was called.
\<close>

definition refusing :: "spied \<Rightarrow> (api_error + jsval) \<times> spied" where
  "refusing s = (Inl notAuthenticated, s)"

definition slow_reader :: "spied \<Rightarrow> (api_error + jsval) \<times> spied" where
  "slow_reader s = (Inr (JNum (Date_now s)), at (Date_now s + 2000) s)"

text \<open>A token manager whose secret storage holds the given token.\<close>

definition storing :: "string \<Rightarrow> token_manager" where
  "storing tok = \<lparr> secrets = [TOKEN_KEY \<mapsto> tok], shown = [] \<rparr>"

section \<open>Notions used in the statements\<close>

text \<open>The distinct elements of a list in the order of their first occurrence.\<close>

definition first_seen :: "'a list \<Rightarrow> 'a list" where
  "first_seen xs = rev (remdups (rev xs))"

text \<open>The cursor a page carries: \<^verbatim>\<open>response.paging?.after\<close> when it is a non-empty string.\<close>

definition next_cursor :: "api_response \<Rightarrow> string option" where
  "next_cursor response =
     (case paging response of
        None \<Rightarrow> None
      | Some pg \<Rightarrow> (case after pg of None \<Rightarrow> None | Some c \<Rightarrow> if c = [] then None else Some c))"

text \<open>
  The states of the provider that the program can bring about: a new provider, and any
  state after a call of \<open>getChildren\<close> (with any element) or of \<open>refresh\<close>.
\<close>

inductive reachable :: "'w tasks_api \<Rightarrow> 'w provider \<Rightarrow> bool" for api :: "'w tasks_api" where
  constructed: "reachable api (new_provider w)"
| expanded: "reachable api st \<Longrightarrow> reachable api (snd (getChildren api element st))"
| refreshed: "reachable api st \<Longrightarrow> reachable api (refresh st)"

text \<open>
  The project nodes in the words of the specification: one node per project with at
  least one task of the status, in the order in which the projects first occur, labelled
  with the project's display name and the count of its tasks of that status.
\<close>

definition claimed_project_nodes :: "task_status \<Rightarrow> string \<Rightarrow> task list \<Rightarrow> tree_item list" where
  "claimed_project_nodes s word tasks =
     map (\<lambda>p. projectNode p
                (''('' @ show_nat (length (filter (\<lambda>t. projectName t = p \<and> t_status t = s) tasks))
                 @ '' '' @ word @ '')''))
       (filter (\<lambda>p. 0 < length (filter (\<lambda>t. projectName t = p \<and> t_status t = s) tasks))
          (first_seen (map projectName tasks)))"

text \<open>
  What an operation may do to the cache: the clock stands, and every entry is as it was,
  or it was absent or at least as old as the time-to-live and a new one stamped with the
  current time has taken its place.
\<close>

definition keeps :: "'z api_state_scheme \<Rightarrow> 'z api_state_scheme \<Rightarrow> bool" where
  "keeps st st' \<longleftrightarrow>
     Date_now st' = Date_now st
     \<and> (\<forall>k. cache st' k = cache st k
             \<or> (cached st k = None \<and> (\<exists>d. cache st' k = Some (d, Date_now st))))"

text \<open>
  The invariant of the event loop while it serves \<open>n\<close> callers: the callers served and the
  callers queued are all callers in call order, every outstanding permit has its release
  timer pending, somebody waits only while a timer is pending, and the permits stay within
  the limit.
\<close>

definition drain_inv :: "nat \<Rightarrow> runtime \<Rightarrow> bool" where
  "drain_inv n s \<longleftrightarrow>
     entered s @ queue s = [0..<n] \<and> running s = int (length (timers s))
     \<and> (queue s = [] \<or> timers s \<noteq> []) \<and> int (length (timers s)) \<le> max 0 (maxConcurrent s)"

text \<open>
  The pending timers are always in the order of their due times, so the oldest timer is
  the one the event loop fires next.
\<close>

definition timers_ok :: "runtime \<Rightarrow> bool" where
  "timers_ok s \<longleftrightarrow> sorted (timers s) \<and> list_all (\<lambda>t. t \<le> now s + interval s) (timers s)"

section \<open>The task tree: what expanding a node returns\<close>

text \<open>
  The flat list \<open>createTreeItems\<close> computes for the grouping example: after the
  ``Open Tasks'' node the projects with an open task, after the ``Completed Tasks'' node
  the projects with a closed one.
\<close>

lemma createTreeItems_spec_tasks:
  "createTreeItems ''root'' (holding spec_tasks) =
     [TaskTreeItem ''Open Tasks'' ''open-tasks'' [] [] Expanded ''category'' None,
      projectNode ''A'' ''(1 open)'',
      projectNode ''Ungrouped'' ''(1 open)'',
      TaskTreeItem ''Completed Tasks'' ''completed-tasks'' [] [] Collapsed ''category'' None,
      projectNode ''A'' ''(1 completed)'']"
  by code_simp

text \<open>
  No operation of the provider stores a task or a cursor unless a cursor is stored
  already: in every state the program can bring about, both maps are empty.
\<close>

lemma getChildren_keeps_empty:
  assumes "taskCache st = Map.empty" and "nextPageTokens st = Map.empty"
  shows "taskCache (snd (getChildren api element st)) = Map.empty
       \<and> nextPageTokens (snd (getChildren api element st)) = Map.empty"
  using assms
  by (auto simp: getChildren_def getRootItems_def loadMoreTasks_def ErrorHandler_handle_def Let_def
      split: option.splits prod.splits sum.splits)

lemma reachable_empty:
  "reachable api st \<Longrightarrow> taskCache st = Map.empty \<and> nextPageTokens st = Map.empty"
proof (induction rule: reachable.induct)
  case (constructed w)
  show ?case by (simp add: new_provider_def)
next
  case (expanded st element)
  then show ?case using getChildren_keeps_empty by blast
next
  case (refreshed st)
  show ?case by (simp add: refresh_def)
qed




text \<open>The project nodes of the specification's three-task example.\<close>

lemma claimed_project_nodes_spec_tasks:
  "claimed_project_nodes Open ''open'' spec_tasks = [projectNode ''A'' ''(1 open)'', projectNode ''Ungrouped'' ''(1 open)'']
   \<and> claimed_project_nodes Closed ''completed'' spec_tasks = [projectNode ''A'' ''(1 completed)'']"
  by code_simp

text \<open>Every node the provider hands out, in a state it can be in, is a category node.\<close>

lemma reachable_lists_categories_only:
  assumes "reachable api st" and "x \<in> set (fst (getChildren api element st))"
  shows "contextValue x = ''category''"
proof -
  from assms(1) have e: "taskCache st = Map.empty" "nextPageTokens st = Map.empty"
    by (simp_all add: reachable_empty)
  from assms(2) show ?thesis
    by (auto simp: getChildren_def getRootItems_def loadMoreTasks_def getTasksForProject_def
        bucket_def e TaskTreeItem_def Let_def split: option.splits prod.splits sum.splits if_splits)
qed





text \<open>
  C4. Listing and then activating ``load more'' once should leave eight tasks accumulated.
  \<open>getRootItems\<close> drops the page it fetched: it stores neither the tasks nor the cursor, so
  against the two-page server the \<^verbatim>\<open>'root'\<close> bucket is still empty after the listing,
  ``load more'' finds no cursor, fetches nothing (the server has answered one call, the
  listing's) and returns no node.
\<close>

theorem listing_then_load_more:
  "(case getChildren two_pages None (new_provider 0) of
      (roots, s1) \<Rightarrow>
        (case getChildren two_pages (Some (loadMoreNode ''root'')) s1 of
           (items, s2) \<Rightarrow>
             map label roots = [''All Tasks'', ''Open Tasks'', ''Completed Tasks'']
             \<and> items = [] \<and> bucket s2 ''root'' = [] \<and> nextPageTokens s2 ''root'' = None
             \<and> world s2 = 1))"
  by (simp add: getChildren_def getRootItems_def two_pages_def page1_def new_provider_def
      TaskTreeItem_def loadMoreNode_def loadMoreTasks_def bucket_def)

lemma first_seen_snoc:
  "first_seen (xs @ [x]) = (if x \<in> set xs then first_seen xs else first_seen xs @ [x])"
  by (simp add: first_seen_def)

lemma set_first_seen [simp]: "set (first_seen xs) = set xs"
  by (simp add: first_seen_def)

lemma groupTasksByProject_snoc:
  "groupTasksByProject (tasks @ [t]) = add_to_group (groupTasksByProject tasks) t"
  by (simp add: groupTasksByProject_def)

lemma groupTasksByProject_eq:
  "groupTasksByProject tasks
     = map (\<lambda>p. (p, filter (\<lambda>t. projectName t = p) tasks)) (first_seen (map projectName tasks))"
proof (induction tasks rule: rev_induct)
  case Nil
  show ?case by (simp add: groupTasksByProject_def first_seen_def)
next
  case (snoc t tasks)
  let ?p = "projectName t"
  show ?case
  proof (cases "?p \<in> projectName ` set tasks")
    case True
    then have "?p \<in> fst ` set (groupTasksByProject tasks)"
      by (simp add: snoc.IH image_image)
    with True show ?thesis
      by (simp add: groupTasksByProject_snoc add_to_group_def snoc.IH first_seen_snoc)
  next
    case False
    then have "?p \<notin> fst ` set (groupTasksByProject tasks)"
      by (simp add: snoc.IH image_image)
    moreover from False have "filter (\<lambda>u. projectName u = ?p) tasks = []"
      by (auto simp: filter_empty_conv intro: rev_image_eqI)
    ultimately show ?thesis using False
      by (auto simp: groupTasksByProject_snoc add_to_group_def snoc.IH first_seen_snoc Let_def)
  qed
qed

lemma concat_map_if:
  "concat (map (\<lambda>x. if P x then [f x] else []) xs) = map f (filter P xs)"
  by (induction xs) simp_all

text \<open>
  The grouping \<open>createTreeItems\<close> computes, for either status: one project node per project
  with at least one task of the status, in the order in which the projects first occur
  among the accumulated tasks, labelled with the project's display name and the number of
  its tasks of that status; no node for a project without such a task.
\<close>

theorem createTreeItems_groups:
  "projectItems s word (groupTasksByProject tasks)
     = map (\<lambda>p. projectNode p
                (''('' @ show_nat (length (filter (\<lambda>t. projectName t = p \<and> t_status t = s) tasks))
                 @ '' '' @ word @ '')''))
         (filter (\<lambda>p. 0 < length (filter (\<lambda>t. projectName t = p \<and> t_status t = s) tasks))
            (first_seen (map projectName tasks)))"
proof -
  have f: "filter (\<lambda>t. t_status t = s) (filter (\<lambda>t. projectName t = p) tasks)
             = filter (\<lambda>t. projectName t = p \<and> t_status t = s) tasks" for p
    by (simp add: conj_commute)
  show ?thesis
    by (simp add: projectItems_def groupTasksByProject_eq comp_def Let_def f projectNode_def
        concat_map_if [symmetric] del: length_greater_0_conv cong: if_cong)
qed

lemma projectItems_contextValue:
  "x \<in> set (projectItems s word grouped) \<Longrightarrow> contextValue x = ''project''"
  by (auto simp: projectItems_def TaskTreeItem_def Let_def split: if_splits)

lemma createTreeItems_last:
  "contextValue (last (createTreeItems key st)) = ''loadMore'' \<longleftrightarrow> nextPageTokens st key \<noteq> None"
proof (cases "nextPageTokens st key")
  case None
  let ?done = "projectItems Closed ''completed'' (groupTasksByProject (bucket st key))"
  show ?thesis
  proof (cases "?done = []")
    case True
    with None show ?thesis by (simp add: createTreeItems_def Let_def TaskTreeItem_def)
  next
    case False
    then have "last ?done \<in> set ?done" by simp
    then have "contextValue (last ?done) = ''project''" by (rule projectItems_contextValue)
    with None False show ?thesis by (simp add: createTreeItems_def Let_def)
  qed
next
  case (Some c)
  then show ?thesis by (simp add: createTreeItems_def Let_def TaskTreeItem_def)
qed

lemma cache_bucket:
  "bucket (cacheTasksAndUpdateNextPageToken key response st) key = bucket st key @ data response"
  by (simp add: cacheTasksAndUpdateNextPageToken_def bucket_def Let_def split: option.splits)

lemma cache_cursor:
  "nextPageTokens (cacheTasksAndUpdateNextPageToken key response st) key = next_cursor response"
  by (simp add: cacheTasksAndUpdateNextPageToken_def next_cursor_def Let_def split: option.splits)

lemma cache_world:
  "world (cacheTasksAndUpdateNextPageToken key response st) = world st"
  by (simp add: cacheTasksAndUpdateNextPageToken_def Let_def split: option.splits)

text \<open>
  What ``load more'' does once a bucket holds a cursor: one call of the API with that
  cursor, the page appended to the bucket, the cursor replaced by the page's or removed,
  and the recomputed list ending in a ``load more'' node exactly when a cursor remains.
  At the witness the bucket holds the five tasks of the first page and the cursor
  \<^verbatim>\<open>"c1"\<close>: eight tasks afterwards and no ``load more'' node.
\<close>

theorem loadMoreTasks_appends_one_page:
  assumes "nextPageTokens st key = Some c" and "c \<noteq> []"
    and "api 20 (Some c) (world st) = (Inr response, w)"
  shows "bucket (snd (loadMoreTasks api key st)) key = bucket st key @ data response
       \<and> nextPageTokens (snd (loadMoreTasks api key st)) key = next_cursor response
       \<and> world (snd (loadMoreTasks api key st)) = w
       \<and> fst (loadMoreTasks api key st) = createTreeItems key (snd (loadMoreTasks api key st))
       \<and> (contextValue (last (fst (loadMoreTasks api key st))) = ''loadMore''
            \<longleftrightarrow> next_cursor response \<noteq> None)"
proof -
  let ?st1 = "cacheTasksAndUpdateNextPageToken key response (st\<lparr> world := w \<rparr>)"
  from assms have l: "loadMoreTasks api key st = (createTreeItems key ?st1, ?st1)"
    by (simp add: loadMoreTasks_def Let_def)
  have b: "bucket ?st1 key = bucket st key @ data response"
    by (simp add: cache_bucket) (simp add: bucket_def)
  show ?thesis
    by (simp add: l b cache_cursor cache_world createTreeItems_last)
qed

theorem loadMoreTasks_appends_one_page_witness:
  "nextPageTokens after_page1 ''root'' = Some ''c1''
   \<and> two_pages 20 (Some ''c1'') (world after_page1) = (Inr page2, 2)
   \<and> length (bucket after_page1 ''root'') = 5
   \<and> length (bucket (snd (loadMoreTasks two_pages ''root'' after_page1)) ''root'') = 8
   \<and> nextPageTokens (snd (loadMoreTasks two_pages ''root'' after_page1)) ''root'' = None
   \<and> world (snd (loadMoreTasks two_pages ''root'' after_page1)) = 2
   \<and> contextValue (last (fst (loadMoreTasks two_pages ''root'' after_page1))) \<noteq> ''loadMore''"
proof -
  have c: "nextPageTokens after_page1 ''root'' = Some ''c1''" by (simp add: after_page1_def)
  have n: "''c1'' \<noteq> []" by simp
  have a: "two_pages 20 (Some ''c1'') (world after_page1) = (Inr page2, 2)"
    by (simp add: two_pages_def after_page1_def new_provider_def)
  have b: "length (bucket after_page1 ''root'') = 5" "length (data page2) = 3" "next_cursor page2 = None"
    by (simp_all add: after_page1_def bucket_def page1_def page2_def next_cursor_def)
  note r = loadMoreTasks_appends_one_page [where api = two_pages, OF c n a]
  from r have 1: "bucket (snd (loadMoreTasks two_pages ''root'' after_page1)) ''root''
      = bucket after_page1 ''root'' @ data page2" by blast
  from r have "nextPageTokens (snd (loadMoreTasks two_pages ''root'' after_page1)) ''root'' = next_cursor page2"
    by blast
  then have 2: "nextPageTokens (snd (loadMoreTasks two_pages ''root'' after_page1)) ''root'' = None"
    by (simp add: b)
  from r have 3: "world (snd (loadMoreTasks two_pages ''root'' after_page1)) = 2" by blast
  from r have "(contextValue (last (fst (loadMoreTasks two_pages ''root'' after_page1))) = ''loadMore'')
      = (next_cursor page2 \<noteq> None)" by blast
  then have 4: "contextValue (last (fst (loadMoreTasks two_pages ''root'' after_page1))) \<noteq> ''loadMore''"
    by (simp add: b)
  have 5: "length (bucket (snd (loadMoreTasks two_pages ''root'' after_page1)) ''root'') = 8"
    by (simp add: 1 b)
  from c a b(1) 2 3 4 5 show ?thesis by blast
qed

section \<open>The rate limiter: everyone gets a permit, in order, within the limit\<close>

lemma issue_Suc: "issue (Suc n) s = wait n (issue n s)"
  by (simp add: issue_def)

text \<open>The state after \<open>n\<close> calls on a new limiter, in closed form.\<close>

lemma issue_new:
  "issue n (new_RateLimiter mc iv) =
     \<lparr> maxConcurrent = mc, interval = iv, running = int (min n (nat mc)),
       queue = [nat mc..<n], timers = replicate (min n (nat mc)) iv, now = 0,
       entered = [0..<min n (nat mc)] \<rparr>"
proof (induction n)
  case 0
  show ?case by (simp add: issue_def new_RateLimiter_def)
next
  case (Suc n)
  show ?case
  proof (cases "n < nat mc")
    case True
    then have m: "min n (nat mc) = n" "min (Suc n) (nat mc) = Suc n" by simp_all
    from True show ?thesis
      by (simp add: issue_Suc Suc.IH wait_def proceed_def m replicate_append_same)
  next
    case False
    then have m: "min n (nat mc) = nat mc" "min (Suc n) (nat mc) = nat mc" by simp_all
    from False show ?thesis
      by (simp add: issue_Suc Suc.IH wait_def m)
  qed
qed

lemma fire_maxConcurrent: "maxConcurrent (fire s) = maxConcurrent s"
  by (cases "timers s"; cases "queue s") (simp_all add: fire_def release_def proceed_def)

lemma draining_cases:
  "s' \<in> set (draining s) \<Longrightarrow> s' = s \<or> (timers s \<noteq> [] \<and> s' \<in> set (draining (fire s)))"
  by (cases "timers s = []") (simp_all add: draining.simps [of s])

lemma draining_maxConcurrent: "s' \<in> set (draining s) \<Longrightarrow> maxConcurrent s' = maxConcurrent s"
proof (induction s rule: draining.induct)
  case (1 s)
  from draining_cases [OF "1.prems"] "1.IH" show ?case
    by (auto simp: fire_maxConcurrent)
qed

lemma fire_inv: "drain_inv n s \<Longrightarrow> timers s \<noteq> [] \<Longrightarrow> drain_inv n (fire s)"
  by (cases "timers s"; cases "queue s") (auto simp: drain_inv_def fire_def release_def proceed_def)

lemma draining_inv: "drain_inv n s \<Longrightarrow> s' \<in> set (draining s) \<Longrightarrow> drain_inv n s'"
proof (induction s rule: draining.induct)
  case (1 s)
  from draining_cases [OF "1.prems"(2)] "1.IH" "1.prems"(1) fire_inv show ?case
    by blast
qed

lemma draining_nonempty: "draining s \<noteq> []"
  by (simp add: draining.simps [of s])

lemma draining_last_idle: "timers (last (draining s)) = []"
proof (induction s rule: draining.induct)
  case (1 s)
  show ?case
  proof (cases "timers s = []")
    case True
    then show ?thesis by (simp add: draining.simps [of s])
  next
    case False
    with "1.IH" draining_nonempty [of "fire s"] show ?thesis
      by (simp add: draining.simps [of s])
  qed
qed

lemma upt_split: "m \<le> n \<Longrightarrow> [0..<m] @ [m..<n] = [0..<n]"
  using upt_add_eq_append [of 0 m "n - m"] by simp

lemma issue_inv: "1 \<le> mc \<Longrightarrow> drain_inv n (issue n (new_RateLimiter mc iv))"
  by (cases "n < nat mc") (auto simp: issue_new drain_inv_def min_def upt_split)

lemma fire_timers_ok: "timers_ok s \<Longrightarrow> timers_ok (fire s)"
  by (cases "timers s"; cases "queue s")
     (auto simp: timers_ok_def fire_def release_def proceed_def sorted_append list_all_iff)

lemma draining_timers_ok: "timers_ok s \<Longrightarrow> s' \<in> set (draining s) \<Longrightarrow> timers_ok s'"
proof (induction s rule: draining.induct)
  case (1 s)
  from draining_cases [OF "1.prems"(2)] "1.IH" "1.prems"(1) fire_timers_ok show ?case
    by blast
qed

lemma history_timers_sorted:
  "s \<in> set (history n (new_RateLimiter mc iv)) \<Longrightarrow> sorted (timers s)"
proof -
  assume "s \<in> set (history n (new_RateLimiter mc iv))"
  then consider j where "s = issue j (new_RateLimiter mc iv)"
    | "s \<in> set (draining (issue n (new_RateLimiter mc iv)))"
    by (auto simp: history_def)
  then show ?thesis
  proof cases
    case 1
    then show ?thesis by (simp add: issue_new sorted_replicate)
  next
    case 2
    have "timers_ok (issue n (new_RateLimiter mc iv))"
      by (simp add: timers_ok_def issue_new sorted_replicate list_all_iff)
    from draining_timers_ok [OF this 2] show ?thesis by (simp add: timers_ok_def)
  qed
qed

text \<open>
  C7 (as amended). For every limit \<open>mc \<ge> 1\<close>, every interval and every \<open>k\<close>: when \<open>mc + k\<close>
  callers call \<^verbatim>\<open>wait()\<close> at once, the event loop comes to rest with every caller holding its
  permit and nobody queued; the callers got their permits in the order they called, so
  the queued ones were resumed first in, first out; and in every state on the way (before
  the first interval has elapsed and after) at most \<open>mc\<close> permits are outstanding, and the
  callers still queued are the latest ones, in call order.
\<close>

theorem rate_limiter_serves_all_in_order:
  assumes "1 \<le> mc"
  shows "entered (settled (nat mc + k) (new_RateLimiter mc iv)) = [0..<nat mc + k]
       \<and> queue (settled (nat mc + k) (new_RateLimiter mc iv)) = []
       \<and> (\<forall>s \<in> set (history (nat mc + k) (new_RateLimiter mc iv)).
             running s \<le> mc
             \<and> entered s @ queue s = [0..<length (entered s) + length (queue s)])"
proof -
  let ?n = "nat mc + k" and ?s0 = "new_RateLimiter mc iv"
  have inv0: "drain_inv ?n (issue ?n ?s0)" using assms by (rule issue_inv)
  have "settled ?n ?s0 \<in> set (draining (issue ?n ?s0))"
    by (simp add: settled_def draining_nonempty)
  with inv0 have inv: "drain_inv ?n (settled ?n ?s0)" by (rule draining_inv)
  have idle: "timers (settled ?n ?s0) = []" by (simp add: settled_def draining_last_idle)
  from inv idle have q: "queue (settled ?n ?s0) = []" by (simp add: drain_inv_def)
  with inv have e: "entered (settled ?n ?s0) = [0..<?n]" by (simp add: drain_inv_def)
  have h: "running s \<le> mc \<and> entered s @ queue s = [0..<length (entered s) + length (queue s)]"
    if "s \<in> set (history ?n ?s0)" for s
  proof -
    from that consider j where "s = issue j ?s0" | "s \<in> set (draining (issue ?n ?s0))"
      by (auto simp: history_def)
    then show ?thesis
    proof cases
      case 1
      then show ?thesis using assms
        by (cases "j < nat mc") (auto simp: issue_new min_def upt_split)
    next
      case 2
      with inv0 have d: "drain_inv ?n s" by (rule draining_inv)
      then have "length (entered s) + length (queue s) = ?n"
        by (metis drain_inv_def length_append length_upt minus_nat.diff_0)
      moreover have "maxConcurrent s = mc" using 2 by (simp add: draining_maxConcurrent issue_new)
      ultimately show ?thesis using assms d by (simp add: drain_inv_def)
    qed
  qed
  from q e h show ?thesis by blast
qed

theorem rate_limiter_serves_all_in_order_witness:
  "(1::int) \<le> 5
   \<and> entered (settled 7 (new_RateLimiter 5 1000)) = [0, 1, 2, 3, 4, 5, 6]
   \<and> queue (settled 7 (new_RateLimiter 5 1000)) = []
   \<and> list_all (\<lambda>s. running s \<le> 5) (history 7 (new_RateLimiter 5 1000))
   \<and> queue (issue 7 (new_RateLimiter 5 1000)) = [5, 6]"
proof -
  have n: "nat 5 + 2 = (7::nat)" by simp
  have u: "[0..<7] = [0, 1, 2, 3, 4, 5, 6::nat]" by code_simp
  have q: "queue (issue 7 (new_RateLimiter 5 1000)) = [5, 6]" by code_simp
  from rate_limiter_serves_all_in_order [of 5 2 1000] show ?thesis
    unfolding n u by (simp add: list_all_iff q)
qed

text \<open>
  C7 as stated, for every \<open>maxConcurrent\<close>, fails at \<open>maxConcurrent = 0\<close> with \<open>k = 1\<close>: the one
  caller is queued, no timer is ever scheduled, and the event loop rests with the caller
  still waiting.
\<close>

theorem zero_limit_counterexample:
  "queue (settled (nat 0 + 1) (new_RateLimiter 0 1000)) = [0]
   \<and> entered (settled (nat 0 + 1) (new_RateLimiter 0 1000)) = []
   \<and> timers (settled (nat 0 + 1) (new_RateLimiter 0 1000)) = []"
  by code_simp

section \<open>The API client: cache, credential and error classification\<close>

lemma cachedRequest_hit: "cached st key = Some d \<Longrightarrow> cachedRequest key f st = (Inr d, st)"
  by (simp add: cachedRequest_def)

lemma cachedRequest_miss:
  "cached st key = None \<Longrightarrow> requestFn st = (Inr d, st1) \<Longrightarrow>
   cachedRequest key requestFn st = (Inr d, st1\<lparr> cache := (cache st1)(key \<mapsto> (d, Date_now st1)) \<rparr>)"
  by (simp add: cachedRequest_def)

lemma cachedRequest_failure:
  "cached st key = None \<Longrightarrow> requestFn st = (Inl err, st1) \<Longrightarrow>
   cachedRequest key requestFn st = (Inl err, st1)"
  by (simp add: cachedRequest_def)

lemma parseResponse_promise: "parseResponse (JPromise r) = Inr (JObj [(''data'', JPromise r)])"
  by (simp add: parseResponse_def)

lemma Date_now_at [simp]: "Date_now (at t st) = t"
  by (simp add: Date_now_def at_def)

lemma cache_at [simp]: "cache (at t st) = cache st"
  by (simp add: at_def)

lemma invocations_at [simp]: "invocations (at t st) = invocations st"
  by (simp add: at_def)

text \<open>
  A client without token and without an entry in force for the derived key rejects with
  the not-authenticated error and is left exactly as it was; a new client is such a one.
\<close>

lemma getTasks_unauthenticated_miss:
  assumes "token st = []" and "cached st (tasksCacheKey limit aft) = None"
  shows "getTasks net limit aft st = (Inl notAuthenticated, st)"
  using assms by (simp add: getTasks_def cachedRequest_def isAuthenticated_def)

lemma getTasks_new_client:
  "getTasks net limit aft (new_OpenMetadataAPI base web) = (Inl notAuthenticated, new_OpenMetadataAPI base web)"
  by (rule getTasks_unauthenticated_miss) (simp_all add: new_OpenMetadataAPI_def cached_def)

text \<open>
  C2. A call of \<open>getTasks\<close> made while the token is empty should reject with the
  not-authenticated error. After \<^verbatim>\<open>authenticate('valid_token')\<close>, \<^verbatim>\<open>getTasks()\<close> and
  \<^verbatim>\<open>authenticate('')\<close> (which the server accepts) the token is empty, and \<^verbatim>\<open>getTasks()\<close>
  resolves with the cached payload instead of rejecting: the token check sits inside the
  cached producer, which a cache hit never runs. Nothing is sent.
\<close>

theorem getTasks_serves_cache_without_token:
  "token signed_out_with_cache = []
   \<and> fst (getTasks ok_net None None signed_out_with_cache) = Inr ok_tasks
   \<and> sent (snd (getTasks ok_net None None signed_out_with_cache)) = sent signed_out_with_cache"
  by code_simp

text \<open>
  C10. When the cache holds an entry younger than the time-to-live for the derived key,
  \<open>getTasks\<close> returns its payload and leaves the client untouched (no token check, no
  permit, no request); and \<open>getTasks\<close> rejects with the not-authenticated error exactly
  when the token is empty and there is no such entry.
\<close>

theorem getTasks_cache_before_token:
  "(cached st (tasksCacheKey limit aft) = Some d \<longrightarrow> getTasks net limit aft st = (Inr d, st))
   \<and> (fst (getTasks net limit aft st) = Inl notAuthenticated
        \<longleftrightarrow> token st = [] \<and> cached st (tasksCacheKey limit aft) = None)"
proof (cases "cached st (tasksCacheKey limit aft)")
  case None
  show ?thesis
  proof (cases "token st = []")
    case True
    with None show ?thesis by (simp add: getTasks_def cachedRequest_def isAuthenticated_def)
  next
    case False
    with None show ?thesis
      by (simp add: getTasks_def cachedRequest_def isAuthenticated_def Let_def parseResponse_promise
          split: prod.splits)
  qed
next
  case (Some d)
  then show ?thesis by (simp add: getTasks_def cachedRequest_def)
qed

theorem getTasks_cache_before_token_witness:
  "\<not> isAuthenticated signed_out_with_cache
   \<and> cached signed_out_with_cache (tasksCacheKey None None) = Some ok_tasks
   \<and> getTasks ok_net None None signed_out_with_cache = (Inr ok_tasks, signed_out_with_cache)
   \<and> fst (getTasks ok_net None (Some ''c1'') signed_out_with_cache) = Inl notAuthenticated"
proof -
  have t: "token signed_out_with_cache = []" by code_simp
  have c: "cached signed_out_with_cache (tasksCacheKey None None) = Some ok_tasks" by code_simp
  have n: "cached signed_out_with_cache (tasksCacheKey None (Some ''c1'')) = None" by code_simp
  from getTasks_cache_before_token [of signed_out_with_cache None None ok_tasks ok_net] c
  have 1: "getTasks ok_net None None signed_out_with_cache = (Inr ok_tasks, signed_out_with_cache)"
    by simp
  from getTasks_cache_before_token [of signed_out_with_cache None "Some ''c1''" ok_tasks ok_net] t n
  have 2: "fst (getTasks ok_net None (Some ''c1'') signed_out_with_cache) = Inl notAuthenticated"
    by simp
  from t c 1 2 show ?thesis by (simp add: isAuthenticated_def)
qed

text \<open>
  C3 (as amended). Calls are made one after the other; the producer is a spy \<open>spy g\<close> that
  counts its invocations, \<open>g\<close> being arbitrary. When the first call finds no entry in force
  and its producer returns a value \<open>v\<close> (in state \<open>s'\<close>), \<open>v\<close> is stored with the time at
  which the producer returned. A second call at a time \<open>t2\<close> less than the time-to-live
  after that stored timestamp returns \<open>v\<close> and changes nothing, so the producer has run
  once. A call at a time \<open>t3\<close> at least the time-to-live after the stored timestamp runs
  the producer a second time and, when it returns a value \<open>w\<close>, stores \<open>w\<close> with the time at
  which it returned. The witness is the schedule 0 ms, 299000 ms (4:59), 301000 ms (5:01)
  with a producer that returns at once.
\<close>

theorem cachedRequest_stores_on_return:
  fixes g :: "spied \<Rightarrow> ('e + jsval) \<times> spied"
  assumes miss: "cached s k = None"
    and first: "g s = (Inr v, s')"
    and s1: "s1 = snd (cachedRequest k (spy g) s)"
    and within: "t2 - Date_now s' < CACHE_TTL"
    and expired: "CACHE_TTL \<le> t3 - Date_now s'"
    and again: "g (at t3 s1) = (Inr w, s'')"
  shows "cachedRequest k (spy g) s = (Inr v, s1)
       \<and> invocations s1 = invocations s + 1
       \<and> cache s1 k = Some (v, Date_now s')
       \<and> cachedRequest k (spy g) (at t2 s1) = (Inr v, at t2 s1)
       \<and> fst (cachedRequest k (spy g) (at t3 s1)) = Inr w
       \<and> invocations (snd (cachedRequest k (spy g) (at t3 s1))) = invocations s + 2
       \<and> cache (snd (cachedRequest k (spy g) (at t3 s1))) k = Some (w, Date_now s'')"
proof -
  have sp: "spy g s = (Inr v, s'\<lparr> invocations := invocations s + 1 \<rparr>)"
    by (simp add: spy_def first)
  have c1: "cachedRequest k (spy g) s
      = (Inr v, s'\<lparr> invocations := invocations s + 1, cache := (cache s')(k \<mapsto> (v, Date_now s')) \<rparr>)"
    using cachedRequest_miss [where requestFn = "spy g", OF miss sp] by (simp add: Date_now_def)
  then have s1': "s1 = s'\<lparr> invocations := invocations s + 1, cache := (cache s')(k \<mapsto> (v, Date_now s')) \<rparr>"
    by (simp add: s1)
  have i1: "invocations s1 = invocations s + 1" and e1: "cache s1 k = Some (v, Date_now s')"
    by (simp_all add: s1')
  have hit: "cached (at t2 s1) k = Some v"
    using within by (simp add: cached_def e1)
  have stale: "cached (at t3 s1) k = None"
    using expired by (simp add: cached_def e1)
  have sp3: "spy g (at t3 s1) = (Inr w, s''\<lparr> invocations := invocations s1 + 1 \<rparr>)"
    by (simp add: spy_def again)
  have c3: "cachedRequest k (spy g) (at t3 s1)
      = (Inr w, s''\<lparr> invocations := invocations s1 + 1, cache := (cache s'')(k \<mapsto> (w, Date_now s'')) \<rparr>)"
    using cachedRequest_miss [where requestFn = "spy g", OF stale sp3] by (simp add: Date_now_def)
  show ?thesis
    using c1 s1' i1 e1 cachedRequest_hit [OF hit, of "spy g"] c3 by simp
qed

theorem cachedRequest_stores_on_return_witness:
  "cached new_spied ''k'' = None
   \<and> cachedRequest ''k'' (spy clock_reader) new_spied = (Inr (JNum 0), first_call)
   \<and> invocations first_call = 1
   \<and> cachedRequest ''k'' (spy clock_reader) (at 299000 first_call) = (Inr (JNum 0), at 299000 first_call)
   \<and> fst (cachedRequest ''k'' (spy clock_reader) (at 301000 first_call)) = Inr (JNum 301000)
   \<and> invocations (snd (cachedRequest ''k'' (spy clock_reader) (at 301000 first_call))) = 2"
proof -
  have n: "Date_now new_spied = 0" "invocations new_spied = 0" by code_simp+
  have miss: "cached new_spied ''k'' = None" by code_simp
  have first: "clock_reader new_spied = (Inr (JNum 0), new_spied)"
    by (simp add: clock_reader_def n)
  have again: "clock_reader (at 301000 first_call) = (Inr (JNum 301000), at 301000 first_call)"
    by (simp add: clock_reader_def)
  have within: "299000 - Date_now new_spied < CACHE_TTL" by (simp add: n CACHE_TTL_def)
  have expired: "CACHE_TTL \<le> 301000 - Date_now new_spied" by (simp add: n CACHE_TTL_def)
  from cachedRequest_stores_on_return [OF miss first first_call_def within expired again] miss n
  show ?thesis by simp
qed

text \<open>
  C3 as stated, for every producer, fails. A producer that throws stores nothing: two
  calls 4:59 apart both invoke it. A producer that returns two seconds after the call
  stamps its value at 0:02: the call at 5:01 finds the entry 4:59 old and returns the
  first value without invoking the producer again.
\<close>

theorem cachedRequest_every_producer_counterexample:
  "fst (cachedRequest ''k'' (spy refusing) new_spied) = Inl notAuthenticated
   \<and> invocations (snd (cachedRequest ''k'' (spy refusing)
        (at 299000 (snd (cachedRequest ''k'' (spy refusing) new_spied))))) = 2
   \<and> fst (cachedRequest ''k'' (spy slow_reader)
        (at 301000 (snd (cachedRequest ''k'' (spy slow_reader) new_spied)))) = Inr (JNum 0)
   \<and> invocations (snd (cachedRequest ''k'' (spy slow_reader)
        (at 301000 (snd (cachedRequest ''k'' (spy slow_reader) new_spied))))) = 1"
  by code_simp

lemma handleError_response:
  "statusCode (handleError (AxiosError m (Some (status, statusText)) rq)) = Some status
   \<and> message (handleError (AxiosError m (Some (401, statusText)) rq))
       = ''Error 401: '' @ statusText @ ''. Please check your authentication token.''
   \<and> message (handleError (AxiosError m (Some (404, statusText)) rq))
       = ''Error 404: '' @ statusText @ ''. The requested resource was not found.''
   \<and> handleError (AxiosError m None True)
       = \<lparr> message = ''OpenMetadata API Error: No response received'', statusCode = None \<rparr>"
  by (simp add: show_nat.simps digit_def)

lemma request_rejects_classified:
  "net \<lparr> rq_method = method, rq_url = baseUrl st @ ''/api/v1'' @ endpoint,
         rq_authorization = ''Bearer '' @ token st, rq_body = body \<rparr> = Inl err
   \<Longrightarrow> fst (request net method endpoint body st) = Inl (handleError err)"
  by (simp add: request_def Let_def)

lemma updateTask_unauthorized:
  "fst (updateTask unauthorized tid upd st)
     = Inl \<lparr> message = ''Error 401: Unauthorized. Please check your authentication token.'',
             statusCode = Some 401 \<rparr>"
  by (simp add: updateTask_def request_def Let_def unauthorized_def show_nat.simps digit_def)

text \<open>
  C5. \<open>handleError\<close> classifies as claimed (\<open>handleError_response\<close>), and an operation that
  lets the rejection of \<open>request\<close> through raises the classified error
  (\<open>updateTask_unauthorized\<close>). \<open>getTaskParentAsset\<close> catches that error and passes it to
  \<open>handleError\<close> a second time, where it is no axios error any more: on a 401 response and
  on a dropped connection alike, the caller gets the generic error without a status code.
\<close>

theorem getTaskParentAsset_loses_classification:
  "fst (getTaskParentAsset unauthorized tid st)
     = Inl \<lparr> message = ''OpenMetadata API Error: Unknown error occurred'', statusCode = None \<rparr>
   \<and> fst (getTaskParentAsset dropped tid st)
     = Inl \<lparr> message = ''OpenMetadata API Error: Unknown error occurred'', statusCode = None \<rparr>"
  by (simp add: getTaskParentAsset_def request_def Let_def unauthorized_def dropped_def)

text \<open>
  The cache map is read and written by \<open>cachedRequest\<close> alone; every public operation of
  the client leaves each entry in place or replaces one that was not in force.
\<close>

lemma keeps_refl: "keeps st st"
  by (simp add: keeps_def)

lemma wait_now: "now (wait caller s) = now s"
  by (simp add: wait_def proceed_def)

lemma request_keeps: "keeps st (snd (request net method endpoint body st))"
  by (simp add: keeps_def request_def Let_def Date_now_def wait_now split: sum.splits prod.splits)

lemma authenticate_keeps: "keeps st (snd (authenticate net jwt st))"
  by (simp add: keeps_def authenticate_def Let_def Date_now_def split: sum.splits prod.splits)

lemma cachedRequest_keeps:
  assumes "keeps st (snd (requestFn st))"
  shows "keeps st (snd (cachedRequest key requestFn st))"
proof (cases "cached st key")
  case (Some d)
  then show ?thesis by (simp add: cachedRequest_def keeps_refl)
next
  case None
  obtain r st1 where f: "requestFn st = (r, st1)" by (cases "requestFn st")
  with assms have k: "keeps st st1" by simp
  show ?thesis
  proof (cases r)
    case (Inl err)
    with None f k show ?thesis by (simp add: cachedRequest_def)
  next
    case (Inr d)
    with None f have c: "snd (cachedRequest key requestFn st)
        = st1\<lparr> cache := (cache st1)(key \<mapsto> (d, Date_now st1)) \<rparr>"
      by (simp add: cachedRequest_def)
    from k None show ?thesis
      unfolding c by (auto simp: keeps_def Date_now_def)
  qed
qed

lemma getAsset_keeps: "keeps st (snd (getAsset net assetId st))"
  unfolding getAsset_def by (rule cachedRequest_keeps) (rule request_keeps)

lemma snd_case_prod: "snd (case p of (a, b) \<Rightarrow> (f a, b)) = snd p"
  by (cases p) simp

lemma getTasks_keeps: "keeps st (snd (getTasks net limit aft st))"
  unfolding getTasks_def
  by (rule cachedRequest_keeps) (simp add: keeps_refl Let_def snd_case_prod request_keeps)

lemma getIngestionBotToken_keeps: "keeps st (snd (getIngestionBotToken net st))"
  unfolding getIngestionBotToken_def
  by (rule cachedRequest_keeps) (simp add: keeps_refl snd_case_prod request_keeps)

lemma getAssetDetails_keeps: "keeps st (snd (getAssetDetails net assetId st))"
  unfolding getAssetDetails_def
  by (rule cachedRequest_keeps) (simp add: snd_case_prod getAsset_keeps)

lemma getTaskParentAsset_keeps: "keeps st (snd (getTaskParentAsset net tid st))"
proof -
  have "snd (getTaskParentAsset net tid st) = snd (request net ''GET'' (''/tasks/'' @ tid) None st)"
    by (simp add: getTaskParentAsset_def split: prod.splits sum.splits)
  then show ?thesis by (simp add: request_keeps)
qed

lemma authenticate_run_keeps: "keeps st (snd (run net enc (Authenticate jwt) st))"
proof -
  have "snd (run net enc (Authenticate jwt) st) = snd (authenticate net jwt st)"
    by (simp split: prod.splits sum.splits)
  then show ?thesis by (simp add: authenticate_keeps)
qed

lemma run_keeps: "keeps st (snd (run net enc call st))"
proof (cases call)
  case (Authenticate jwt)
  then show ?thesis by (simp only: authenticate_run_keeps)
qed (simp_all add: keeps_refl updateTask_def getTaskDetails_def getAsset_def getAssetLineage_def
      searchAssets_def getDataQualityTestResults_def Let_def request_keeps cachedRequest_keeps
      getTasks_keeps getIngestionBotToken_keeps getAssetDetails_keeps getTaskParentAsset_keeps)

text \<open>An entry in force stays in force.\<close>

lemma keeps_cached:
  assumes "keeps st st'" and "cached st k = Some d"
  shows "cached st' k = Some d"
proof -
  from assms(1) have n: "Date_now st' = Date_now st"
    and "cache st' k = cache st k \<or> (cached st k = None \<and> (\<exists>d. cache st' k = Some (d, Date_now st)))"
    by (simp_all add: keeps_def)
  with assms(2) have c: "cache st' k = cache st k" by auto
  have "cached st' k = cached st k" unfolding cached_def c n ..
  with assms(2) show ?thesis by simp
qed

lemma refresh_world: "world (refresh p) = world p"
  by (simp add: refresh_def)

text \<open>
  C9 (as amended). No public operation of the client invalidates or clears the cache.
  Whatever operation is called, with whatever arguments and network: the clock stands;
  the entry under any key \<open>k\<close> is as it was, or it was absent or at least as old as the
  time-to-live and a new one stamped with the current time has taken its place; and when
  the entry under \<open>k\<close> was in force before the operation, the next cached fetch for \<open>k\<close>
  returns its payload and changes nothing, so its producer is not invoked.
\<close>

theorem no_operation_clears_the_cache:
  "Date_now (snd (run net enc call st)) = Date_now st
   \<and> (cache (snd (run net enc call st)) k = cache st k
        \<or> (cached st k = None \<and> (\<exists>d. cache (snd (run net enc call st)) k = Some (d, Date_now st))))
   \<and> (cached st k = Some d \<longrightarrow>
         cachedRequest k f (snd (run net enc call st)) = (Inr d, snd (run net enc call st)))"
proof -
  have k: "keeps st (snd (run net enc call st))" by (rule run_keeps)
  then have 1: "Date_now (snd (run net enc call st)) = Date_now st"
    and 2: "cache (snd (run net enc call st)) k = cache st k
        \<or> (cached st k = None \<and> (\<exists>d. cache (snd (run net enc call st)) k = Some (d, Date_now st)))"
    by (simp_all add: keeps_def)
  have 3: "cachedRequest k f (snd (run net enc call st)) = (Inr d, snd (run net enc call st))"
    if "cached st k = Some d"
    using keeps_cached [OF k that] by (rule cachedRequest_hit)
  from 1 2 3 show ?thesis by blast
qed

theorem no_operation_clears_the_cache_witness:
  "cached signed_out_with_cache (tasksCacheKey None None) = Some ok_tasks
   \<and> cachedRequest (tasksCacheKey None None) (spy clock_reader)
         (snd (run ok_net id (Authenticate ''valid_token'') signed_out_with_cache))
       = (Inr ok_tasks, snd (run ok_net id (Authenticate ''valid_token'') signed_out_with_cache))"
proof -
  have c: "cached signed_out_with_cache (tasksCacheKey None None) = Some ok_tasks" by code_simp
  from no_operation_clears_the_cache [where st = signed_out_with_cache and k = "tasksCacheKey None None"
      and d = ok_tasks and net = ok_net and enc = id and call = "Authenticate ''valid_token''"
      and f = "spy clock_reader"] c
  show ?thesis by blast
qed

text \<open>
  C9 as stated fails: for the client that holds the task listing, there is no operation
  after which the cached fetch for the listing's key invokes its producer.
\<close>

theorem no_invalidate_counterexample:
  "\<not> (\<exists>call net enc.
        invocations (snd (cachedRequest (tasksCacheKey None None) (spy clock_reader)
                            (snd (run net enc call signed_out_with_cache))))
        \<noteq> invocations (snd (run net enc call signed_out_with_cache)))"
proof -
  have c: "cached signed_out_with_cache (tasksCacheKey None None) = Some ok_tasks" by code_simp
  have "cachedRequest (tasksCacheKey None None) (spy clock_reader) (snd (run net enc call signed_out_with_cache))
      = (Inr ok_tasks, snd (run net enc call signed_out_with_cache))" for net enc call
    using keeps_cached [OF run_keeps c] by (rule cachedRequest_hit)
  then show ?thesis by simp
qed

section \<open>The token manager: what a refresh does to the stored token\<close>

text \<open>
  C6. With a token stored: when the refresh call throws, the secret storage is unchanged
  and \<open>getToken\<close> still returns the token; when it returns no token (or the empty string),
  \<open>getToken\<close> returns nothing afterwards; when it returns a new token, \<open>getToken\<close> returns
  the new token.
\<close>

theorem refreshToken_outcomes:
  assumes "getToken st = Some tok"
  shows "(\<forall>err. api tok = Inl err \<longrightarrow>
            secrets (refreshToken api st) = secrets st \<and> getToken (refreshToken api st) = Some tok)
       \<and> (api tok = Inr None \<or> api tok = Inr (Some []) \<longrightarrow> getToken (refreshToken api st) = None)
       \<and> (\<forall>new. new \<noteq> [] \<and> api tok = Inr (Some new) \<longrightarrow> getToken (refreshToken api st) = Some new)"
proof -
  from assms have ne: "tok \<noteq> []"
    by (auto simp: getToken_def decryptToken_def split: option.splits if_splits)
  show ?thesis
    using assms ne
    by (auto simp: refreshToken_def showMessage_def clearToken_def setToken_def getToken_def
        encryptToken_def decryptToken_def split: option.splits)
qed

theorem refreshToken_outcomes_witness:
  "getToken (storing ''old'') = Some ''old''
   \<and> getToken (refreshToken (\<lambda>t. Inl (JsError ''Network Error'')) (storing ''old'')) = Some ''old''
   \<and> getToken (refreshToken (\<lambda>t. Inr None) (storing ''old'')) = None
   \<and> getToken (refreshToken (\<lambda>t. Inr (Some ''new'')) (storing ''old'')) = Some ''new''"
proof -
  have g: "getToken (storing ''old'') = Some ''old''"
    by (simp add: getToken_def storing_def decryptToken_def)
  from refreshToken_outcomes [OF g, of "\<lambda>t. Inl (JsError ''Network Error'')"]
    refreshToken_outcomes [OF g, of "\<lambda>t. Inr None"]
    refreshToken_outcomes [OF g, of "\<lambda>t. Inr (Some ''new'')"] g
  show ?thesis by simp
qed

end
